theory Spec2Isabelle
  imports Main "HOL-Library.Word" "HOL-Library.Sublist"
begin

unbundle bit_operations_syntax

section \<open>Values of the program\<close>

text \<open>
  The module \<^verbatim>\<open>bioutils/digests.py\<close> is modelled as Python 3 runs it. A sequence is
  either a \<^verbatim>\<open>bytes\<close> object (a list of 8-bit words) or a \<^verbatim>\<open>str\<close> (a list of Unicode
  code points, each below \<^verbatim>\<open>0x110000\<close>). Every exception the code can raise is a
  value of \<open>error\<close>; a call returns \<open>Inl\<close> of the error or \<open>Inr\<close> of its result.
  ASCII text that the module returns is an Isabelle \<open>string\<close>, whose characters are
  8-bit.
\<close>

type_synonym byte = "8 word"
type_synonym u32 = "32 word"
type_synonym u64 = "64 word"

datatype pyval = Bytes "byte list" | Text "nat list"

datatype error = UnicodeEncodeError | UnicodeDecodeError | TypeError

definition bind_r :: "error + 'a \<Rightarrow> ('a \<Rightarrow> error + 'b) \<Rightarrow> error + 'b" where
  "bind_r r f = (case r of Inl e \<Rightarrow> Inl e | Inr v \<Rightarrow> f v)"

subsection \<open>\<^verbatim>\<open>str.encode()\<close>: strict UTF-8\<close>

text \<open>
  \<^verbatim>\<open>s.encode()\<close> encodes with UTF-8 and the \<^verbatim>\<open>strict\<close> error handler: a surrogate
  code point (\<^verbatim>\<open>U+D800\<close> to \<^verbatim>\<open>U+DFFF\<close>) raises \<^verbatim>\<open>UnicodeEncodeError\<close>.
\<close>

definition utf8_encode_cp :: "nat \<Rightarrow> error + byte list" where
  "utf8_encode_cp c =
     (if c < 0x80 then Inr [of_nat c]
      else if c < 0x800 then Inr [of_nat (0xC0 + c div 64), of_nat (0x80 + c mod 64)]
      else if 0xD800 \<le> c \<and> c \<le> 0xDFFF then Inl UnicodeEncodeError
      else if c < 0x10000 then
        Inr [of_nat (0xE0 + c div 4096), of_nat (0x80 + c div 64 mod 64), of_nat (0x80 + c mod 64)]
      else
        Inr [of_nat (0xF0 + c div 262144), of_nat (0x80 + c div 4096 mod 64),
             of_nat (0x80 + c div 64 mod 64), of_nat (0x80 + c mod 64)])"

fun str_encode :: "nat list \<Rightarrow> error + byte list" where
  "str_encode [] = Inr []"
| "str_encode (c # cs) =
     bind_r (utf8_encode_cp c) (\<lambda>bs. bind_r (str_encode cs) (\<lambda>rest. Inr (bs @ rest)))"

text \<open>\<^verbatim>\<open>_to_binary(s)\<close>: \<^verbatim>\<open>s if isinstance(s, six.binary_type) else s.encode()\<close>.\<close>

fun to_binary :: "pyval \<Rightarrow> error + byte list" where
  "to_binary (Bytes b) = Inr b"
| "to_binary (Text t) = str_encode t"

subsection \<open>\<^verbatim>\<open>normalize_sequence\<close>\<close>

text \<open>
  The byte pattern \<^verbatim>\<open>[\s\*]\<close> matches one byte: \<^verbatim>\<open>\s\<close> in a bytes pattern is
  \<^verbatim>\<open>[ \t\n\r\f\v]\<close>, and \<^verbatim>\<open>\*\<close> is the asterisk.
\<close>

definition re_space :: "byte \<Rightarrow> bool" where
  "re_space b = (b = 0x20 \<or> b = 0x09 \<or> b = 0x0A \<or> b = 0x0D \<or> b = 0x0C \<or> b = 0x0B)"

definition re_class :: "byte \<Rightarrow> bool" where
  "re_class b = (re_space b \<or> b = 0x2A)"

text \<open>
  \<^verbatim>\<open>re.sub(b"[\s\*]", b"", seq)\<close> scans from the left; at each position the class
  either matches the byte, which is replaced by the empty string, or the byte is
  copied.
\<close>

fun re_sub :: "byte list \<Rightarrow> byte list" where
  "re_sub [] = []"
| "re_sub (b # bs) = (if re_class b then re_sub bs else b # re_sub bs)"

text \<open>\<^verbatim>\<open>bytes.upper()\<close> maps the ASCII letters \<^verbatim>\<open>a\<close> to \<^verbatim>\<open>z\<close> and nothing else.\<close>

definition byte_upper :: "byte \<Rightarrow> byte" where
  "byte_upper b = (if 0x61 \<le> b \<and> b \<le> 0x7A then b - 0x20 else b)"

fun bytes_upper :: "byte list \<Rightarrow> byte list" where
  "bytes_upper [] = []"
| "bytes_upper (b # bs) = byte_upper b # bytes_upper bs"

definition normalize_sequence :: "pyval \<Rightarrow> error + byte list" where
  "normalize_sequence seq = bind_r (to_binary seq) (\<lambda>seq. Inr (bytes_upper (re_sub seq)))"

text \<open>
  The normalizer as the specification words it: delete every byte that is one of the
  six ASCII whitespace characters or the asterisk, then uppercase the ASCII letters.
\<close>

definition spec_deleted :: "byte set" where
  "spec_deleted = {0x20, 0x09, 0x0A, 0x0D, 0x0C, 0x0B, 0x2A}"

definition spec_upper :: "byte \<Rightarrow> byte" where
  "spec_upper b = (if b \<in> {0x61 .. 0x7A} then b - 32 else b)"

definition spec_normalize :: "byte list \<Rightarrow> byte list" where
  "spec_normalize bs = map spec_upper (filter (\<lambda>b. b \<notin> spec_deleted) bs)"

section \<open>The hash primitives of \<^verbatim>\<open>hashlib\<close>\<close>

text \<open>
  \<^verbatim>\<open>hashlib.sha1\<close>, \<^verbatim>\<open>hashlib.sha512\<close> and \<^verbatim>\<open>hashlib.md5\<close> are the functions of
  FIPS 180-4 and RFC 1321 on byte strings. All three pad the message with the byte
  \<^verbatim>\<open>0x80\<close>, zero bytes and the bit length, and fold a compression function over the
  blocks.
\<close>

fun word_be :: "nat \<Rightarrow> 'a::len word \<Rightarrow> byte list" where
  "word_be 0 w = []"
| "word_be (Suc n) w = word_be n (drop_bit 8 w) @ [ucast w]"

fun word_le :: "nat \<Rightarrow> 'a::len word \<Rightarrow> byte list" where
  "word_le 0 w = []"
| "word_le (Suc n) w = ucast w # word_le n (drop_bit 8 w)"

definition be_word :: "byte list \<Rightarrow> 'a::len word" where
  "be_word bs = foldl (\<lambda>acc b. push_bit 8 acc OR ucast b) 0 bs"

definition le_word :: "byte list \<Rightarrow> 'a::len word" where
  "le_word bs = foldr (\<lambda>b acc. push_bit 8 acc OR ucast b) bs 0"

function chunks :: "nat \<Rightarrow> 'a list \<Rightarrow> 'a list list" where
  "chunks n xs = (if n = 0 \<or> xs = [] then [] else take n xs # chunks n (drop n xs))"
  by pat_completeness auto
termination
  by (relation "measure (\<lambda>(n, xs). length xs)") auto

declare chunks.simps [simp del]

definition md_pad :: "nat \<Rightarrow> byte list \<Rightarrow> byte list \<Rightarrow> byte list" where
  "md_pad blk len_field m =
     m @ [0x80] @ replicate ((2 * blk - 1 - length len_field - length m mod blk) mod blk) 0
       @ len_field"

definition rotl32 :: "nat \<Rightarrow> u32 \<Rightarrow> u32" where
  "rotl32 n w = push_bit n w OR drop_bit (32 - n) w"

definition rotr64 :: "nat \<Rightarrow> u64 \<Rightarrow> u64" where
  "rotr64 n w = drop_bit n w OR push_bit (64 - n) w"

subsection \<open>SHA-1\<close>

fun sha1_schedule :: "nat \<Rightarrow> u32 list \<Rightarrow> u32 list" where
  "sha1_schedule 0 win = []"
| "sha1_schedule (Suc n) win =
     (let w = rotl32 1 (win ! 13 XOR win ! 8 XOR win ! 2 XOR win ! 0)
      in w # sha1_schedule n (tl win @ [w]))"

definition sha1_ch :: "u32 \<Rightarrow> u32 \<Rightarrow> u32 \<Rightarrow> u32" where
  "sha1_ch b c d = (b AND c) OR (NOT b AND d)"

definition sha1_parity :: "u32 \<Rightarrow> u32 \<Rightarrow> u32 \<Rightarrow> u32" where
  "sha1_parity b c d = b XOR c XOR d"

definition sha1_maj :: "u32 \<Rightarrow> u32 \<Rightarrow> u32 \<Rightarrow> u32" where
  "sha1_maj b c d = (b AND c) OR (b AND d) OR (c AND d)"

type_synonym sha1_state = "u32 \<times> u32 \<times> u32 \<times> u32 \<times> u32"

fun sha1_round ::
  "(u32 \<Rightarrow> u32 \<Rightarrow> u32 \<Rightarrow> u32) \<Rightarrow> u32 \<Rightarrow> sha1_state \<Rightarrow> u32 \<Rightarrow> sha1_state" where
  "sha1_round f k (a, b, c, d, e) w =
     (rotl32 5 a + f b c d + e + k + w, a, rotl32 30 b, c, d)"

fun sha1_add :: "sha1_state \<Rightarrow> sha1_state \<Rightarrow> sha1_state" where
  "sha1_add (h0, h1, h2, h3, h4) (a, b, c, d, e) = (h0 + a, h1 + b, h2 + c, h3 + d, h4 + e)"

definition sha1_rounds :: "sha1_state \<Rightarrow> u32 list \<Rightarrow> sha1_state" where
  "sha1_rounds h ws =
     foldl (sha1_round sha1_parity 0xCA62C1D6)
       (foldl (sha1_round sha1_maj 0x8F1BBCDC)
          (foldl (sha1_round sha1_parity 0x6ED9EBA1)
             (foldl (sha1_round sha1_ch 0x5A827999) h (take 20 ws))
             (take 20 (drop 20 ws)))
          (take 20 (drop 40 ws)))
       (drop 60 ws)"

definition sha1_compress :: "sha1_state \<Rightarrow> u32 list \<Rightarrow> sha1_state" where
  "sha1_compress h ws = sha1_add h (sha1_rounds h (ws @ sha1_schedule 64 ws))"

definition sha1_block :: "sha1_state \<Rightarrow> byte list \<Rightarrow> sha1_state" where
  "sha1_block h blk = sha1_compress h (map be_word (chunks 4 blk))"

fun sha1_out :: "sha1_state \<Rightarrow> byte list" where
  "sha1_out (a, b, c, d, e) = concat (map (word_be 4) [a, b, c, d, e])"

definition sha1 :: "byte list \<Rightarrow> byte list" where
  "sha1 m =
     sha1_out (foldl sha1_block (0x67452301, 0xEFCDAB89, 0x98BADCFE, 0x10325476, 0xC3D2E1F0)
       (chunks 64 (md_pad 64 (word_be 8 (8 * of_nat (length m) :: u64)) m)))"

subsection \<open>SHA-512\<close>

definition sha512_K :: "u64 list" where
  "sha512_K =
    [0x428A2F98D728AE22, 0x7137449123EF65CD, 0xB5C0FBCFEC4D3B2F, 0xE9B5DBA58189DBBC,
     0x3956C25BF348B538, 0x59F111F1B605D019, 0x923F82A4AF194F9B, 0xAB1C5ED5DA6D8118,
     0xD807AA98A3030242, 0x12835B0145706FBE, 0x243185BE4EE4B28C, 0x550C7DC3D5FFB4E2,
     0x72BE5D74F27B896F, 0x80DEB1FE3B1696B1, 0x9BDC06A725C71235, 0xC19BF174CF692694,
     0xE49B69C19EF14AD2, 0xEFBE4786384F25E3, 0x0FC19DC68B8CD5B5, 0x240CA1CC77AC9C65,
     0x2DE92C6F592B0275, 0x4A7484AA6EA6E483, 0x5CB0A9DCBD41FBD4, 0x76F988DA831153B5,
     0x983E5152EE66DFAB, 0xA831C66D2DB43210, 0xB00327C898FB213F, 0xBF597FC7BEEF0EE4,
     0xC6E00BF33DA88FC2, 0xD5A79147930AA725, 0x06CA6351E003826F, 0x142929670A0E6E70,
     0x27B70A8546D22FFC, 0x2E1B21385C26C926, 0x4D2C6DFC5AC42AED, 0x53380D139D95B3DF,
     0x650A73548BAF63DE, 0x766A0ABB3C77B2A8, 0x81C2C92E47EDAEE6, 0x92722C851482353B,
     0xA2BFE8A14CF10364, 0xA81A664BBC423001, 0xC24B8B70D0F89791, 0xC76C51A30654BE30,
     0xD192E819D6EF5218, 0xD69906245565A910, 0xF40E35855771202A, 0x106AA07032BBD1B8,
     0x19A4C116B8D2D0C8, 0x1E376C085141AB53, 0x2748774CDF8EEB99, 0x34B0BCB5E19B48A8,
     0x391C0CB3C5C95A63, 0x4ED8AA4AE3418ACB, 0x5B9CCA4F7763E373, 0x682E6FF3D6B2B8A3,
     0x748F82EE5DEFB2FC, 0x78A5636F43172F60, 0x84C87814A1F0AB72, 0x8CC702081A6439EC,
     0x90BEFFFA23631E28, 0xA4506CEBDE82BDE9, 0xBEF9A3F7B2C67915, 0xC67178F2E372532B,
     0xCA273ECEEA26619C, 0xD186B8C721C0C207, 0xEADA7DD6CDE0EB1E, 0xF57D4F7FEE6ED178,
     0x06F067AA72176FBA, 0x0A637DC5A2C898A6, 0x113F9804BEF90DAE, 0x1B710B35131C471B,
     0x28DB77F523047D84, 0x32CAAB7B40C72493, 0x3C9EBE0A15C9BEBC, 0x431D67C49C100D4C,
     0x4CC5D4BECB3E42B6, 0x597F299CFC657E2A, 0x5FCB6FAB3AD6FAEC, 0x6C44198C4A475817]"

definition ssig0 :: "u64 \<Rightarrow> u64" where
  "ssig0 x = rotr64 1 x XOR rotr64 8 x XOR drop_bit 7 x"

definition ssig1 :: "u64 \<Rightarrow> u64" where
  "ssig1 x = rotr64 19 x XOR rotr64 61 x XOR drop_bit 6 x"

definition bsig0 :: "u64 \<Rightarrow> u64" where
  "bsig0 x = rotr64 28 x XOR rotr64 34 x XOR rotr64 39 x"

definition bsig1 :: "u64 \<Rightarrow> u64" where
  "bsig1 x = rotr64 14 x XOR rotr64 18 x XOR rotr64 41 x"

definition ch64 :: "u64 \<Rightarrow> u64 \<Rightarrow> u64 \<Rightarrow> u64" where
  "ch64 x y z = (x AND y) XOR (NOT x AND z)"

definition maj64 :: "u64 \<Rightarrow> u64 \<Rightarrow> u64 \<Rightarrow> u64" where
  "maj64 x y z = (x AND y) XOR (x AND z) XOR (y AND z)"

fun sha512_schedule :: "nat \<Rightarrow> u64 list \<Rightarrow> u64 list" where
  "sha512_schedule 0 win = []"
| "sha512_schedule (Suc n) win =
     (let w = ssig1 (win ! 14) + win ! 9 + ssig0 (win ! 1) + win ! 0
      in w # sha512_schedule n (tl win @ [w]))"

type_synonym sha512_state = "u64 \<times> u64 \<times> u64 \<times> u64 \<times> u64 \<times> u64 \<times> u64 \<times> u64"

fun sha512_round :: "sha512_state \<Rightarrow> u64 \<times> u64 \<Rightarrow> sha512_state" where
  "sha512_round (a, b, c, d, e, f, g, h) (k, w) =
     (let t1 = h + bsig1 e + ch64 e f g + k + w;
          t2 = bsig0 a + maj64 a b c
      in (t1 + t2, a, b, c, d + t1, e, f, g))"

fun sha512_add :: "sha512_state \<Rightarrow> sha512_state \<Rightarrow> sha512_state" where
  "sha512_add (h0, h1, h2, h3, h4, h5, h6, h7) (a, b, c, d, e, f, g, h) =
     (h0 + a, h1 + b, h2 + c, h3 + d, h4 + e, h5 + f, h6 + g, h7 + h)"

definition sha512_compress :: "sha512_state \<Rightarrow> u64 list \<Rightarrow> sha512_state" where
  "sha512_compress h ws =
     sha512_add h (foldl sha512_round h (zip sha512_K (ws @ sha512_schedule 64 ws)))"

definition sha512_block :: "sha512_state \<Rightarrow> byte list \<Rightarrow> sha512_state" where
  "sha512_block h blk = sha512_compress h (map be_word (chunks 8 blk))"

fun sha512_out :: "sha512_state \<Rightarrow> byte list" where
  "sha512_out (a, b, c, d, e, f, g, h) = concat (map (word_be 8) [a, b, c, d, e, f, g, h])"

definition sha512 :: "byte list \<Rightarrow> byte list" where
  "sha512 m =
     sha512_out (foldl sha512_block
        (0x6A09E667F3BCC908, 0xBB67AE8584CAA73B, 0x3C6EF372FE94F82B, 0xA54FF53A5F1D36F1,
         0x510E527FADE682D1, 0x9B05688C2B3E6C1F, 0x1F83D9ABFB41BD6B, 0x5BE0CD19137E2179)
        (chunks 128 (md_pad 128 (word_be 16 (8 * of_nat (length m) :: 128 word)) m)))"

subsection \<open>MD5\<close>

definition md5_K :: "u32 list" where
  "md5_K =
    [0xD76AA478, 0xE8C7B756, 0x242070DB, 0xC1BDCEEE, 0xF57C0FAF, 0x4787C62A,
     0xA8304613, 0xFD469501, 0x698098D8, 0x8B44F7AF, 0xFFFF5BB1, 0x895CD7BE,
     0x6B901122, 0xFD987193, 0xA679438E, 0x49B40821, 0xF61E2562, 0xC040B340,
     0x265E5A51, 0xE9B6C7AA, 0xD62F105D, 0x02441453, 0xD8A1E681, 0xE7D3FBC8,
     0x21E1CDE6, 0xC33707D6, 0xF4D50D87, 0x455A14ED, 0xA9E3E905, 0xFCEFA3F8,
     0x676F02D9, 0x8D2A4C8A, 0xFFFA3942, 0x8771F681, 0x6D9D6122, 0xFDE5380C,
     0xA4BEEA44, 0x4BDECFA9, 0xF6BB4B60, 0xBEBFBC70, 0x289B7EC6, 0xEAA127FA,
     0xD4EF3085, 0x04881D05, 0xD9D4D039, 0xE6DB99E5, 0x1FA27CF8, 0xC4AC5665,
     0xF4292244, 0x432AFF97, 0xAB9423A7, 0xFC93A039, 0x655B59C3, 0x8F0CCC92,
     0xFFEFF47D, 0x85845DD1, 0x6FA87E4F, 0xFE2CE6E0, 0xA3014314, 0x4E0811A1,
     0xF7537E82, 0xBD3AF235, 0x2AD7D2BB, 0xEB86D391]"

definition md5_S :: "nat list" where
  "md5_S =
    [7, 12, 17, 22, 7, 12, 17, 22, 7, 12, 17, 22, 7, 12, 17, 22,
     5, 9, 14, 20, 5, 9, 14, 20, 5, 9, 14, 20, 5, 9, 14, 20,
     4, 11, 16, 23, 4, 11, 16, 23, 4, 11, 16, 23, 4, 11, 16, 23,
     6, 10, 15, 21, 6, 10, 15, 21, 6, 10, 15, 21, 6, 10, 15, 21]"

definition md5_G :: "nat list" where
  "md5_G =
    [0, 1, 2, 3, 4, 5, 6, 7, 8, 9, 10, 11, 12, 13, 14, 15,
     1, 6, 11, 0, 5, 10, 15, 4, 9, 14, 3, 8, 13, 2, 7, 12,
     5, 8, 11, 14, 1, 4, 7, 10, 13, 0, 3, 6, 9, 12, 15, 2,
     0, 7, 14, 5, 12, 3, 10, 1, 8, 15, 6, 13, 4, 11, 2, 9]"

definition md5_F :: "u32 \<Rightarrow> u32 \<Rightarrow> u32 \<Rightarrow> u32" where
  "md5_F b c d = (b AND c) OR (NOT b AND d)"

definition md5_Gf :: "u32 \<Rightarrow> u32 \<Rightarrow> u32 \<Rightarrow> u32" where
  "md5_Gf b c d = (d AND b) OR (NOT d AND c)"

definition md5_H :: "u32 \<Rightarrow> u32 \<Rightarrow> u32 \<Rightarrow> u32" where
  "md5_H b c d = b XOR c XOR d"

definition md5_I :: "u32 \<Rightarrow> u32 \<Rightarrow> u32 \<Rightarrow> u32" where
  "md5_I b c d = c XOR (b OR NOT d)"

type_synonym md5_state = "u32 \<times> u32 \<times> u32 \<times> u32"

fun md5_round ::
  "(u32 \<Rightarrow> u32 \<Rightarrow> u32 \<Rightarrow> u32) \<Rightarrow> u32 list \<Rightarrow> md5_state \<Rightarrow> u32 \<times> nat \<times> nat \<Rightarrow> md5_state" where
  "md5_round f ms (a, b, c, d) (k, s, g) =
     (d, b + rotl32 s (a + f b c d + k + ms ! g), b, c)"

fun md5_add :: "md5_state \<Rightarrow> md5_state \<Rightarrow> md5_state" where
  "md5_add (a0, b0, c0, d0) (a, b, c, d) = (a0 + a, b0 + b, c0 + c, d0 + d)"

definition md5_rounds :: "md5_state \<Rightarrow> u32 list \<Rightarrow> md5_state" where
  "md5_rounds h ms =
     (let tbl = zip md5_K (zip md5_S md5_G) in
      foldl (md5_round md5_I ms)
        (foldl (md5_round md5_H ms)
           (foldl (md5_round md5_Gf ms)
              (foldl (md5_round md5_F ms) h (take 16 tbl))
              (take 16 (drop 16 tbl)))
           (take 16 (drop 32 tbl)))
        (drop 48 tbl))"

definition md5_block :: "md5_state \<Rightarrow> byte list \<Rightarrow> md5_state" where
  "md5_block h blk = md5_add h (md5_rounds h (map le_word (chunks 4 blk)))"

fun md5_out :: "md5_state \<Rightarrow> byte list" where
  "md5_out (a, b, c, d) = concat (map (word_le 4) [a, b, c, d])"

definition md5 :: "byte list \<Rightarrow> byte list" where
  "md5 m =
     md5_out (foldl md5_block (0x67452301, 0xEFCDAB89, 0x98BADCFE, 0x10325476)
       (chunks 64 (md_pad 64 (word_le 8 (8 * of_nat (length m) :: u64)) m)))"

section \<open>Text encodings of a digest\<close>

subsection \<open>\<^verbatim>\<open>base64.b64encode\<close> and \<^verbatim>\<open>base64.urlsafe_b64encode\<close>\<close>

definition b64_table :: string where
  "b64_table = ''ABCDEFGHIJKLMNOPQRSTUVWXYZabcdefghijklmnopqrstuvwxyz0123456789+/''"

definition b64_char :: "nat \<Rightarrow> char" where
  "b64_char n = b64_table ! n"

text \<open>
  Three bytes give four characters; a last group of one or two bytes is padded with
  \<^verbatim>\<open>=\<close> to four characters. The result is a \<^verbatim>\<open>bytes\<close> object of ASCII characters.
\<close>

fun b64encode :: "byte list \<Rightarrow> string" where
  "b64encode [] = []"
| "b64encode [a] =
     [b64_char (unat a div 4), b64_char (unat a mod 4 * 16), CHR ''='', CHR ''='']"
| "b64encode [a, b] =
     [b64_char (unat a div 4), b64_char (unat a mod 4 * 16 + unat b div 16),
      b64_char (unat b mod 16 * 4), CHR ''='']"
| "b64encode (a # b # c # rest) =
     [b64_char (unat a div 4), b64_char (unat a mod 4 * 16 + unat b div 16),
      b64_char (unat b mod 16 * 4 + unat c div 64), b64_char (unat c mod 64)]
     @ b64encode rest"

text \<open>
  \<^verbatim>\<open>urlsafe_b64encode(s)\<close> is \<^verbatim>\<open>b64encode(s).translate(...)\<close>, which maps \<^verbatim>\<open>+\<close> to
  \<^verbatim>\<open>-\<close> and \<^verbatim>\<open>/\<close> to \<^verbatim>\<open>_\<close>.
\<close>

definition urlsafe_char :: "char \<Rightarrow> char" where
  "urlsafe_char c = (if c = CHR ''+'' then CHR ''-'' else if c = CHR ''/'' then CHR ''_'' else c)"

definition urlsafe_b64encode :: "byte list \<Rightarrow> string" where
  "urlsafe_b64encode s = map urlsafe_char (b64encode s)"

text \<open>\<^verbatim>\<open>bytes.decode("ascii")\<close> raises on a byte above \<^verbatim>\<open>0x7F\<close>.\<close>

definition decode_ascii :: "string \<Rightarrow> error + string" where
  "decode_ascii s =
     (if list_all (\<lambda>c. (of_char c :: nat) < 128) s then Inr s else Inl UnicodeDecodeError)"

text \<open>\<^verbatim>\<open>str.rstrip('=')\<close> removes the trailing run of \<^verbatim>\<open>=\<close>.\<close>

definition rstrip :: "char \<Rightarrow> string \<Rightarrow> string" where
  "rstrip c s = rev (dropWhile (\<lambda>x. x = c) (rev s))"

subsection \<open>\<^verbatim>\<open>hexdigest\<close>\<close>

definition hex_table :: string where
  "hex_table = ''0123456789abcdef''"

fun hexdigest :: "byte list \<Rightarrow> string" where
  "hexdigest [] = []"
| "hexdigest (b # bs) = hex_table ! (unat b div 16) # hex_table ! (unat b mod 16) # hexdigest bs"

subsection \<open>The slice \<^verbatim>\<open>digest[:digest_size]\<close>\<close>

text \<open>
  A Python slice with a negative bound counts from the end, and a bound beyond the
  length stops at the length.
\<close>

definition slice_to :: "'a list \<Rightarrow> int \<Rightarrow> 'a list" where
  "slice_to xs n = (if 0 \<le> n then take (nat n) xs else take (length xs - nat (- n)) xs)"

section \<open>The digest functions\<close>

definition seq_seguid :: "pyval \<Rightarrow> bool \<Rightarrow> error + string" where
  "seq_seguid seq normalize_flag =
     bind_r (to_binary seq) (\<lambda>seq.
     bind_r (if normalize_flag then normalize_sequence (Bytes seq) else Inr seq) (\<lambda>seq.
     bind_r (decode_ascii (b64encode (sha1 seq))) (\<lambda>s.
     Inr (rstrip CHR ''='' s))))"

text \<open>
  \<^verbatim>\<open>hashlib.sha512(data)\<close> raises \<^verbatim>\<open>TypeError\<close> on a \<^verbatim>\<open>str\<close>; \<open>sha512t\<close> does not
  coerce its argument.
\<close>

fun sha512t :: "pyval \<Rightarrow> int \<Rightarrow> error + string" where
  "sha512t (Text t) digest_size = Inl TypeError"
| "sha512t (Bytes data) digest_size =
     decode_ascii (urlsafe_b64encode (slice_to (sha512 data) digest_size))"

text \<open>The last line of \<^verbatim>\<open>seq_seqhash\<close> is \<^verbatim>\<open>return sha512t(seq, digest_size=24)\<close>.\<close>

definition seq_seqhash :: "pyval \<Rightarrow> bool \<Rightarrow> int \<Rightarrow> error + string" where
  "seq_seqhash seq normalize_flag digest_size =
     bind_r (to_binary seq) (\<lambda>seq.
     bind_r (if normalize_flag then normalize_sequence (Bytes seq) else Inr seq) (\<lambda>seq.
     sha512t (Bytes seq) 24))"

definition seq_md5 :: "pyval \<Rightarrow> bool \<Rightarrow> error + string" where
  "seq_md5 seq normalize_flag =
     bind_r (to_binary seq) (\<lambda>seq.
     bind_r (if normalize_flag then normalize_sequence (Bytes seq) else Inr seq) (\<lambda>seq.
     Inr (hexdigest (md5 seq))))"

definition seq_sha1 :: "pyval \<Rightarrow> bool \<Rightarrow> error + string" where
  "seq_sha1 seq normalize_flag =
     bind_r (to_binary seq) (\<lambda>seq.
     bind_r (if normalize_flag then normalize_sequence (Bytes seq) else Inr seq) (\<lambda>seq.
     Inr (hexdigest (sha1 seq))))"

definition seq_sha512 :: "pyval \<Rightarrow> bool \<Rightarrow> error + string" where
  "seq_sha512 seq normalize_flag =
     bind_r (to_binary seq) (\<lambda>seq.
     bind_r (if normalize_flag then normalize_sequence (Bytes seq) else Inr seq) (\<lambda>seq.
     Inr (hexdigest (sha512 seq))))"

text \<open>A \<^verbatim>\<open>str\<close> literal of ASCII characters, as the list of its code points.\<close>

definition str :: "string \<Rightarrow> pyval" where
  "str s = Text (map of_char s)"

section \<open>Auxiliary notions for the statements\<close>

text \<open>The number of padding characters \<^verbatim>\<open>=\<close> that Base64 adds to \<open>n\<close> bytes.\<close>

definition b64_pad :: "nat \<Rightarrow> nat" where
  "b64_pad n = (3 - n mod 3) mod 3"

definition ascii_text :: "string \<Rightarrow> bool" where
  "ascii_text s = list_all (\<lambda>c. (of_char c :: nat) < 128) s"

text \<open>The bytes a digest function hashes: all five coerce, then normalize on request.\<close>

definition hashed_bytes :: "pyval \<Rightarrow> bool \<Rightarrow> error + byte list" where
  "hashed_bytes seq normalize_flag =
     (if normalize_flag then normalize_sequence seq else to_binary seq)"

text \<open>A sequence that \<^verbatim>\<open>_to_binary\<close> can coerce: bytes, or text free of surrogates.\<close>

fun encodable :: "pyval \<Rightarrow> bool" where
  "encodable (Bytes b) = True"
| "encodable (Text t) = list_all (\<lambda>c. c < 0xD800 \<or> 0xDFFF < c) t"

text \<open>
  One step of a message schedule with the new word already computed: the word is
  emitted and enters the 16-word window.
\<close>

definition sha1_push :: "u32 \<Rightarrow> nat \<Rightarrow> u32 list \<Rightarrow> u32 list" where
  "sha1_push w n win = w # sha1_schedule n (win @ [w])"

definition sha512_push :: "u64 \<Rightarrow> nat \<Rightarrow> u64 list \<Rightarrow> u64 list" where
  "sha512_push w n win = w # sha512_schedule n (win @ [w])"

text \<open>
  An edit of a sequence that the claims call harmless: an ASCII whitespace character
  or an asterisk is inserted or removed at any position, or an ASCII letter changes
  its case. (\<open>upper c = upper c'\<close> holds for two different characters only when
  one is the other in the opposite case.) On text the characters are code points.
\<close>

definition droppable_cp :: "nat \<Rightarrow> bool" where
  "droppable_cp c =
     (c = 0x20 \<or> c = 0x09 \<or> c = 0x0A \<or> c = 0x0D \<or> c = 0x0C \<or> c = 0x0B \<or> c = 0x2A)"

definition cp_upper :: "nat \<Rightarrow> nat" where
  "cp_upper c = (if 0x61 \<le> c \<and> c \<le> 0x7A then c - 0x20 else c)"

inductive list_edit :: "('a \<Rightarrow> bool) \<Rightarrow> ('a \<Rightarrow> 'a) \<Rightarrow> 'a list \<Rightarrow> 'a list \<Rightarrow> bool"
  for droppable :: "'a \<Rightarrow> bool" and upper :: "'a \<Rightarrow> 'a" where
  add_char: "droppable c \<Longrightarrow> list_edit droppable upper (xs @ ys) (xs @ c # ys)"
| drop_char: "droppable c \<Longrightarrow> list_edit droppable upper (xs @ c # ys) (xs @ ys)"
| recase: "upper c = upper c' \<Longrightarrow> list_edit droppable upper (xs @ c # ys) (xs @ c' # ys)"

inductive edit :: "pyval \<Rightarrow> pyval \<Rightarrow> bool" where
  edit_bytes: "list_edit (\<lambda>b. b \<in> spec_deleted) spec_upper xs ys \<Longrightarrow> edit (Bytes xs) (Bytes ys)"
| edit_text: "list_edit droppable_cp cp_upper xs ys \<Longrightarrow> edit (Text xs) (Text ys)"


text \<open>
  The number of bytes of a 64-byte digest that the slice \<^verbatim>\<open>digest[:n]\<close> keeps.
\<close>

definition kept_bytes :: "int \<Rightarrow> nat" where
  "kept_bytes n = (if 0 \<le> n then min (nat n) 64 else 64 - nat (- n))"




section \<open>Normalization\<close>

lemma bind_r_Inr [simp]: "bind_r (Inr v) f = f v"
  by (simp add: bind_r_def)

lemma bind_r_Inl [simp]: "bind_r (Inl e) f = Inl e"
  by (simp add: bind_r_def)

lemma re_class_spec: "re_class b \<longleftrightarrow> b \<in> spec_deleted"
  by (auto simp: re_class_def re_space_def spec_deleted_def)

lemma byte_upper_spec: "byte_upper b = spec_upper b"
  by (simp add: byte_upper_def spec_upper_def)

lemma bytes_upper_map: "bytes_upper bs = map byte_upper bs"
  by (induction bs) simp_all

lemma re_sub_filter: "re_sub bs = filter (\<lambda>b. \<not> re_class b) bs"
  by (induction bs) simp_all

lemma normalize_bytes_spec: "bytes_upper (re_sub bs) = spec_normalize bs"
  by (simp add: bytes_upper_map re_sub_filter spec_normalize_def re_class_spec byte_upper_spec)

lemma spec_normalize_subseq: "subseq (spec_normalize bs) (map spec_upper bs)"
  unfolding spec_normalize_def by (rule subseq_map) simp

text \<open>
  C2. For every text-or-bytes input, \<open>normalize_sequence\<close> is the coercion to bytes
  followed by the deletion of the six ASCII whitespace bytes and of the asterisk and
  by the uppercasing of the ASCII letters; the result is a subsequence of the
  uppercased input, so the order of the remaining bytes is kept. (When the coercion
  raises, so does the normalizer.)
\<close>

theorem normalize_sequence_refines_spec:
  "normalize_sequence x = bind_r (to_binary x) (\<lambda>b. Inr (spec_normalize b))
   \<and> (\<forall>b. subseq (spec_normalize b) (map spec_upper b))
   \<and> (\<forall>b. length (spec_normalize b) = length (filter (\<lambda>c. c \<notin> spec_deleted) b))"
proof -
  have "length (spec_normalize b) = length (filter (\<lambda>c. c \<notin> spec_deleted) b)" for b
    by (simp add: spec_normalize_def)
  then show ?thesis
    by (simp add: normalize_sequence_def normalize_bytes_spec spec_normalize_subseq)
qed

lemma byte_upper_not_class: "\<not> re_class b \<Longrightarrow> \<not> re_class (byte_upper b)"
  by (auto simp: re_class_def re_space_def byte_upper_def)

lemma byte_upper_idem: "byte_upper (byte_upper b) = byte_upper b"
proof (cases "0x61 \<le> b \<and> b \<le> 0x7A")
  case True
  then have "\<not> 0x61 \<le> b - 0x20"
    by (auto simp add: word_le_nat_alt unat_sub)
  with True show ?thesis by (simp add: byte_upper_def)
next
  case False
  then show ?thesis by (simp add: byte_upper_def)
qed

lemma re_sub_upper_fix: "re_sub (bytes_upper (re_sub bs)) = bytes_upper (re_sub bs)"
  by (induction bs) (simp_all add: byte_upper_not_class)

lemma bytes_upper_idem: "bytes_upper (bytes_upper bs) = bytes_upper bs"
  by (induction bs) (simp_all add: byte_upper_idem)

lemma normalize_bytes_idem:
  "bytes_upper (re_sub (bytes_upper (re_sub bs))) = bytes_upper (re_sub bs)"
  by (simp add: re_sub_upper_fix bytes_upper_idem)

text \<open>
  C4. Normalization is idempotent: normalizing the bytes that \<open>normalize_sequence\<close>
  returned gives the same bytes, and a call that raises raises the same error.
\<close>

theorem normalize_sequence_idempotent:
  "bind_r (normalize_sequence x) (\<lambda>y. normalize_sequence (Bytes y)) = normalize_sequence x"
  by (cases "to_binary x") (simp_all add: normalize_sequence_def normalize_bytes_idem)

section \<open>Digest lengths and the Base64 alphabet\<close>

lemma length_word_be [simp]: "length (word_be n w) = n"
  by (induction n arbitrary: w) simp_all

lemma length_sha1_out: "length (sha1_out s) = 20"
  by (cases s rule: sha1_out.cases) simp

lemma length_sha1 [simp]: "length (sha1 m) = 20"
  by (simp add: sha1_def length_sha1_out)

lemma length_sha512_out: "length (sha512_out s) = 64"
  by (cases s rule: sha512_out.cases) simp

lemma length_sha512 [simp]: "length (sha512 m) = 64"
  by (simp add: sha512_def length_sha512_out)

lemma length_b64_table: "length b64_table = 64"
  by (simp add: b64_table_def)

lemma b64_table_no_pad: "CHR ''='' \<notin> set b64_table"
  by (simp add: b64_table_def)

lemma b64_table_ascii: "list_all (\<lambda>c. (of_char c :: nat) < 128) b64_table"
  by (simp add: b64_table_def)

lemma b64_char_no_pad: "n < 64 \<Longrightarrow> b64_char n \<noteq> CHR ''=''"
proof -
  assume "n < 64"
  then have "b64_table ! n \<in> set b64_table"
    by (simp add: length_b64_table)
  with b64_table_no_pad show ?thesis
    by (auto simp: b64_char_def)
qed

lemma b64_char_ascii: "n < 64 \<Longrightarrow> (of_char (b64_char n) :: nat) < 128"
proof -
  assume "n < 64"
  then have "b64_table ! n \<in> set b64_table"
    by (simp add: length_b64_table)
  with b64_table_ascii show ?thesis
    by (auto simp: b64_char_def list_all_iff)
qed

lemma unat_byte_lt: "unat (a :: byte) < 256"
  using unsigned_less [of a, where ?'a = nat] by simp

lemma sextets:
  "unat (a :: byte) div 4 < 64"
  "unat (a :: byte) mod 4 * 16 < 64"
  "unat (a :: byte) mod 4 * 16 + unat (b :: byte) div 16 < 64"
  "unat (b :: byte) mod 16 * 4 < 64"
  "unat (b :: byte) mod 16 * 4 + unat (c :: byte) div 64 < 64"
  "unat (c :: byte) mod 64 < 64"
  using unat_byte_lt [of a] unat_byte_lt [of b] unat_byte_lt [of c] by auto

section \<open>The shape of a Base64 encoding\<close>

lemma length_b64encode: "length (b64encode bs) = 4 * ((length bs + 2) div 3)"
proof (induction bs rule: b64encode.induct)
  case (4 a b c rest)
  have "(5 + length rest) div 3 = Suc ((Suc (Suc (length rest))) div 3)"
    by arith
  with 4 show ?case by simp
qed simp_all

lemma b64_pad_simps [simp]:
  "b64_pad 0 = 0" "b64_pad (Suc 0) = 2" "b64_pad (Suc (Suc 0)) = 1"
  "b64_pad (Suc (Suc (Suc n))) = b64_pad n"
  by (simp_all add: b64_pad_def) 

lemma b64encode_shape:
  "\<exists>body. b64encode bs = body @ replicate (b64_pad (length bs)) CHR ''=''
     \<and> CHR ''='' \<notin> set body \<and> ascii_text body"
proof (induction bs rule: b64encode.induct)
  case 1
  show ?case by (simp add: ascii_text_def)
next
  case (2 a)
  have "b64encode [a] = [b64_char (unat a div 4), b64_char (unat a mod 4 * 16)]
          @ replicate (b64_pad (length [a])) CHR ''=''"
    by (simp add: numeral_2_eq_2)
  moreover have "CHR ''='' \<notin> set [b64_char (unat a div 4), b64_char (unat a mod 4 * 16)]"
    using b64_char_no_pad sextets(1,2) [of a] by (metis empty_iff empty_set set_ConsD)
  moreover have "ascii_text [b64_char (unat a div 4), b64_char (unat a mod 4 * 16)]"
    using b64_char_ascii sextets(1,2) [of a] by (simp add: ascii_text_def)
  ultimately show ?case by blast
next
  case (3 a b)
  let ?body = "[b64_char (unat a div 4), b64_char (unat a mod 4 * 16 + unat b div 16),
      b64_char (unat b mod 16 * 4)]"
  have "b64encode [a, b] = ?body @ replicate (b64_pad (length [a, b])) CHR ''=''"
    by simp
  moreover have "CHR ''='' \<notin> set ?body"
    using b64_char_no_pad sextets(1) [of a] sextets(3) [of a b] sextets(4) [of b]
    by (metis empty_iff empty_set set_ConsD)
  moreover have "ascii_text ?body"
    using b64_char_ascii sextets(1) [of a] sextets(3) [of a b] sextets(4) [of b]
    by (simp add: ascii_text_def)
  ultimately show ?case by blast
next
  case (4 a b c rest)
  let ?hd = "[b64_char (unat a div 4), b64_char (unat a mod 4 * 16 + unat b div 16),
      b64_char (unat b mod 16 * 4 + unat c div 64), b64_char (unat c mod 64)]"
  from 4 obtain body where body: "b64encode rest = body @ replicate (b64_pad (length rest)) CHR ''=''"
    "CHR ''='' \<notin> set body" "ascii_text body"
    by blast
  have "b64encode (a # b # c # rest)
          = (?hd @ body) @ replicate (b64_pad (length (a # b # c # rest))) CHR ''=''"
    using body(1) by simp
  moreover have "CHR ''='' \<notin> set ?hd"
    using b64_char_no_pad sextets(1) [of a] sextets(3) [of a b] sextets(5) [of b c] sextets(6) [of c]
    by (metis empty_iff empty_set set_ConsD)
  then have "CHR ''='' \<notin> set (?hd @ body)"
    using body(2) by simp
  moreover have "ascii_text ?hd"
    using b64_char_ascii sextets(1) [of a] sextets(3) [of a b] sextets(5) [of b c] sextets(6) [of c]
    by (simp add: ascii_text_def)
  then have "ascii_text (?hd @ body)"
    using body(3) by (simp add: ascii_text_def)
  ultimately show ?case by blast
qed

lemma rstrip_padded: "c \<notin> set body \<Longrightarrow> rstrip c (body @ replicate k c) = body"
proof -
  assume c: "c \<notin> set body"
  have "dropWhile (\<lambda>x. x = c) (replicate k c @ rev body) = dropWhile (\<lambda>x. x = c) (rev body)"
    by (induction k) simp_all
  also have "\<dots> = rev body"
    using c by (cases "rev body") auto
  finally show ?thesis by (simp add: rstrip_def)
qed

lemma ascii_text_padded: "ascii_text body \<Longrightarrow> ascii_text (body @ replicate k CHR ''='')"
  by (auto simp: ascii_text_def list_all_iff)

lemma decode_ascii_ok: "ascii_text s \<Longrightarrow> decode_ascii s = Inr s"
  by (simp add: decode_ascii_def ascii_text_def)

lemma urlsafe_char_pad [simp]: "urlsafe_char c = CHR ''='' \<longleftrightarrow> c = CHR ''=''"
  by (simp add: urlsafe_char_def)

lemma urlsafe_char_ascii: "(of_char c :: nat) < 128 \<Longrightarrow> (of_char (urlsafe_char c) :: nat) < 128"
  by (simp add: urlsafe_char_def)

lemma urlsafe_b64encode_shape:
  "\<exists>body. urlsafe_b64encode bs = body @ replicate (b64_pad (length bs)) CHR ''=''
     \<and> CHR ''='' \<notin> set body \<and> ascii_text body"
proof -
  obtain body where body: "b64encode bs = body @ replicate (b64_pad (length bs)) CHR ''=''"
    "CHR ''='' \<notin> set body" "ascii_text body"
    using b64encode_shape by blast
  have "urlsafe_b64encode bs = map urlsafe_char body @ replicate (b64_pad (length bs)) CHR ''=''"
    by (simp add: urlsafe_b64encode_def body(1) urlsafe_char_def)
  moreover have "CHR ''='' \<notin> set (map urlsafe_char body)"
    using body(2) by (metis (no_types) imageE list.set_map urlsafe_char_pad)
  moreover have "ascii_text (map urlsafe_char body)"
    using body(3) by (simp add: ascii_text_def list_all_iff urlsafe_char_ascii)
  ultimately show ?thesis by blast
qed

lemma length_urlsafe_b64encode: "length (urlsafe_b64encode bs) = 4 * ((length bs + 2) div 3)"
  by (simp add: urlsafe_b64encode_def length_b64encode)

section \<open>The digest functions\<close>

lemma coerce_then_normalize:
  "bind_r (to_binary x) (\<lambda>b. bind_r (if n then normalize_sequence (Bytes b) else Inr b) f)
     = bind_r (hashed_bytes x n) f"
  by (cases "to_binary x") (simp_all add: hashed_bytes_def normalize_sequence_def)

lemma seguid_text:
  "decode_ascii (b64encode (sha1 b)) = Inr (b64encode (sha1 b))
   \<and> length (rstrip CHR ''='' (b64encode (sha1 b))) = 27
   \<and> CHR ''='' \<notin> set (rstrip CHR ''='' (b64encode (sha1 b)))"
proof -
  obtain body where body: "b64encode (sha1 b) = body @ replicate (b64_pad (length (sha1 b))) CHR ''=''"
    "CHR ''='' \<notin> set body" "ascii_text body"
    using b64encode_shape by blast
  have pad: "b64_pad (length (sha1 b)) = 1"
    by (simp add: b64_pad_def)
  have "length (b64encode (sha1 b)) = 28"
    by (simp add: length_b64encode)
  then have len: "length body = 27"
    using body(1) pad by simp
  have "rstrip CHR ''='' (b64encode (sha1 b)) = body"
    using body(1,2) by (simp add: rstrip_padded)
  moreover have "decode_ascii (b64encode (sha1 b)) = Inr (b64encode (sha1 b))"
    using body(1,3) by (simp add: decode_ascii_ok ascii_text_padded)
  ultimately show ?thesis using len body(2) by simp
qed


lemma slice_to_nat: "slice_to xs (int n) = take n xs"
  by (simp add: slice_to_def)

lemma urlsafe_ok: "decode_ascii (urlsafe_b64encode bs) = Inr (urlsafe_b64encode bs)"
proof -
  obtain body where "urlsafe_b64encode bs = body @ replicate (b64_pad (length bs)) CHR ''=''"
    "ascii_text body"
    using urlsafe_b64encode_shape by blast
  then show ?thesis by (simp add: decode_ascii_ok ascii_text_padded)
qed

lemma sha512t_Bytes: "sha512t (Bytes data) ds = Inr (urlsafe_b64encode (slice_to (sha512 data) ds))"
  by (simp add: urlsafe_ok)

lemma urlsafe_pad_iff:
  "CHR ''='' \<in> set (urlsafe_b64encode bs) \<longleftrightarrow> length bs mod 3 \<noteq> 0"
proof -
  obtain body where body: "urlsafe_b64encode bs = body @ replicate (b64_pad (length bs)) CHR ''=''"
    "CHR ''='' \<notin> set body"
    using urlsafe_b64encode_shape by blast
  have "b64_pad (length bs) = 0 \<longleftrightarrow> length bs mod 3 = 0"
    unfolding b64_pad_def by arith
  then show ?thesis using body by auto
qed

text \<open>
  C1. \<open>seq_seqhash\<close> passes the constant 24 to \<open>sha512t\<close>, whatever its
  \<open>digest_size\<close> argument is. With \<open>digest_size = 12\<close> on the empty sequence it
  returns the 32 characters that encode 24 digest bytes, where \<open>sha512t\<close> with
  size 12 returns 16 characters.
\<close>

theorem seq_seqhash_ignores_digest_size:
  "seq_seqhash x n ds = seq_seqhash x n 24
   \<and> seq_seqhash (Bytes []) True 12 = Inr (urlsafe_b64encode (take 24 (sha512 [])))
   \<and> length (urlsafe_b64encode (take 24 (sha512 []))) = 32
   \<and> sha512t (Bytes []) 12 = Inr (urlsafe_b64encode (take 12 (sha512 [])))
   \<and> length (urlsafe_b64encode (take 12 (sha512 []))) = 16"
proof -
  have a: "slice_to (sha512 []) 24 = take 24 (sha512 [])" "slice_to (sha512 []) 12 = take 12 (sha512 [])"
    using slice_to_nat [of "sha512 []" 24] slice_to_nat [of "sha512 []" 12] by simp_all
  show ?thesis
    by (simp add: seq_seqhash_def normalize_sequence_def urlsafe_ok a length_urlsafe_b64encode)
qed

lemma seq_seguid_alt:
  "seq_seguid x n = bind_r (hashed_bytes x n) (\<lambda>b. Inr (rstrip CHR ''='' (b64encode (sha1 b))))"
  by (simp add: seq_seguid_def seguid_text coerce_then_normalize)

lemma seq_seqhash_alt:
  "seq_seqhash x n ds
     = bind_r (hashed_bytes x n) (\<lambda>b. Inr (urlsafe_b64encode (take 24 (sha512 b))))"
proof -
  have "slice_to (sha512 b) 24 = take 24 (sha512 b)" for b
    using slice_to_nat [of "sha512 b" 24] by simp
  then show ?thesis
    by (simp add: seq_seqhash_def coerce_then_normalize urlsafe_ok)
qed

lemma seq_md5_alt: "seq_md5 x n = bind_r (hashed_bytes x n) (\<lambda>b. Inr (hexdigest (md5 b)))"
  by (simp add: seq_md5_def coerce_then_normalize)

lemma seq_sha1_alt: "seq_sha1 x n = bind_r (hashed_bytes x n) (\<lambda>b. Inr (hexdigest (sha1 b)))"
  by (simp add: seq_sha1_def coerce_then_normalize)

lemma seq_sha512_alt:
  "seq_sha512 x n = bind_r (hashed_bytes x n) (\<lambda>b. Inr (hexdigest (sha512 b)))"
  by (simp add: seq_sha512_def coerce_then_normalize)


section \<open>The truncated digest\<close>

lemma slice_to_sha512:
  "slice_to (sha512 data) ds = take (kept_bytes ds) (sha512 data)"
  by (simp add: slice_to_def kept_bytes_def min_def)

lemma length_slice_sha512: "length (slice_to (sha512 data) ds) = kept_bytes ds"
  by (simp add: slice_to_def kept_bytes_def min_def)

lemma slice_to_cases:
  "slice_to (sha512 data) ds
     = (if 0 \<le> ds then take (nat ds) (sha512 data) else take (64 - nat (- ds)) (sha512 data))"
  by (simp add: slice_to_def)

lemma b64_pad_iff: "CHR ''='' \<in> set (b64encode bs) \<longleftrightarrow> length bs mod 3 \<noteq> 0"
proof -
  obtain body where body: "b64encode bs = body @ replicate (b64_pad (length bs)) CHR ''=''"
    "CHR ''='' \<notin> set body"
    using b64encode_shape by blast
  have "b64_pad (length bs) = 0 \<longleftrightarrow> length bs mod 3 = 0"
    unfolding b64_pad_def by arith
  then show ?thesis using body by auto
qed

text \<open>
  C7, as stated, fails for a negative size: \<open>sha512t\<close> with size \<open>-4\<close> encodes
  the first 60 bytes of the digest in 80 characters, where the encoding of no bytes
  is empty.
\<close>

theorem sha512t_negative_size_counterexample:
  "sha512t (Bytes []) (- 4) = Inr (urlsafe_b64encode (take 60 (sha512 [])))
   \<and> length (urlsafe_b64encode (take 60 (sha512 []))) = 80
   \<and> length (urlsafe_b64encode (take (nat (- 4)) (sha512 []))) = 0"
  by (simp add: urlsafe_ok slice_to_def length_urlsafe_b64encode)

text \<open>
  C7, amended. For every byte string and every size, \<open>sha512t\<close> hashes the bytes as
  they are and returns the URL-safe Base64 encoding of the slice of the SHA-512
  digest up to the size: the first \<open>digest_size\<close> bytes (all 64 beyond that) for a
  size that is not negative, and all but the last \<open>- digest_size\<close> bytes for a
  negative one. The result is the encoder's: its padding of \<^verbatim>\<open>=\<close> characters stays
  at the end, whereas \<open>seq_seguid\<close> removes the \<^verbatim>\<open>=\<close> that its encoder appends.
\<close>

theorem sha512t_slice_urlsafe_base64:
  "sha512t (Bytes data) ds = Inr (urlsafe_b64encode (slice_to (sha512 data) ds))
   \<and> slice_to (sha512 data) ds
       = (if 0 \<le> ds then take (nat ds) (sha512 data) else take (64 - nat (- ds)) (sha512 data))
   \<and> length (slice_to (sha512 data) ds) = kept_bytes ds
   \<and> (\<exists>body. sha512t (Bytes data) ds
                = Inr (body @ replicate (b64_pad (kept_bytes ds)) CHR ''='')
              \<and> CHR ''='' \<notin> set body)
   \<and> seq_seguid x nf = bind_r (hashed_bytes x nf) (\<lambda>b. Inr (rstrip CHR ''='' (b64encode (sha1 b))))
   \<and> (\<forall>b. CHR ''='' \<in> set (b64encode (sha1 b))
          \<and> CHR ''='' \<notin> set (rstrip CHR ''='' (b64encode (sha1 b))))"
proof -
  have g: "CHR ''='' \<in> set (b64encode (sha1 b))
          \<and> CHR ''='' \<notin> set (rstrip CHR ''='' (b64encode (sha1 b)))" for b
    using seguid_text [of b] by (simp add: b64_pad_iff)
  have e: "sha512t (Bytes data) ds = Inr (urlsafe_b64encode (slice_to (sha512 data) ds))"
    by (simp add: urlsafe_ok)
  obtain body where "urlsafe_b64encode (slice_to (sha512 data) ds)
      = body @ replicate (b64_pad (length (slice_to (sha512 data) ds))) CHR ''=''"
    "CHR ''='' \<notin> set body"
    using urlsafe_b64encode_shape [of "slice_to (sha512 data) ds"] by blast
  then have "\<exists>body. sha512t (Bytes data) ds
                = Inr (body @ replicate (b64_pad (kept_bytes ds)) CHR ''='')
              \<and> CHR ''='' \<notin> set body"
    unfolding e length_slice_sha512 by blast
  with e g seq_seguid_alt [of x nf] slice_to_cases [of data ds] length_slice_sha512 [of data ds]
  show ?thesis
    by blast
qed

text \<open>
  C10, as stated, fails: 66 and \<open>-3\<close> are divisible by 3, yet \<open>sha512t\<close> with size
  66 encodes all 64 digest bytes, with size \<open>-3\<close> the first 61, and both results
  contain \<^verbatim>\<open>=\<close>.
\<close>

theorem sha512t_pad_counterexample:
  "sha512t (Bytes []) 66 = Inr (urlsafe_b64encode (sha512 []))
   \<and> CHR ''='' \<in> set (urlsafe_b64encode (sha512 []))
   \<and> (66 :: int) mod 3 = 0
   \<and> sha512t (Bytes []) (- 3) = Inr (urlsafe_b64encode (take 61 (sha512 [])))
   \<and> CHR ''='' \<in> set (urlsafe_b64encode (take 61 (sha512 [])))
   \<and> (- 3 :: int) mod 3 = 0"
  by (simp add: urlsafe_ok slice_to_def urlsafe_pad_iff)

text \<open>
  C10, amended. At size 24 the results of \<open>sha512t\<close> and of \<open>seq_seqhash\<close> have
  exactly 32 characters and no \<^verbatim>\<open>=\<close>. For every size \<open>n\<close>, the result of \<open>sha512t\<close>
  is the encoding of \<open>kept_bytes n\<close> digest bytes and contains \<^verbatim>\<open>=\<close> exactly when
  that number is not divisible by 3.
\<close>

theorem seqhash_default_length_and_padding:
  "sha512t (Bytes data) 24 = Inr (urlsafe_b64encode (take 24 (sha512 data)))
   \<and> seq_seqhash x nf ds
       = bind_r (hashed_bytes x nf) (\<lambda>b. Inr (urlsafe_b64encode (take 24 (sha512 b))))
   \<and> (\<forall>b. length (urlsafe_b64encode (take 24 (sha512 b))) = 32
          \<and> CHR ''='' \<notin> set (urlsafe_b64encode (take 24 (sha512 b))))
   \<and> sha512t (Bytes data) n = Inr (urlsafe_b64encode (slice_to (sha512 data) n))
   \<and> length (slice_to (sha512 data) n) = kept_bytes n
   \<and> (CHR ''='' \<in> set (urlsafe_b64encode (slice_to (sha512 data) n)))
       = (kept_bytes n mod 3 \<noteq> 0)"
proof -
  have a: "slice_to (sha512 b) 24 = take 24 (sha512 b)" for b
    by (simp add: slice_to_def)
  have "sha512t (Bytes data) 24 = Inr (urlsafe_b64encode (take 24 (sha512 data)))"
    by (simp add: urlsafe_ok a)
  moreover have "seq_seqhash x nf ds
       = bind_r (hashed_bytes x nf) (\<lambda>b. Inr (urlsafe_b64encode (take 24 (sha512 b))))"
    by (rule seq_seqhash_alt)
  moreover have "length (urlsafe_b64encode (take 24 (sha512 b))) = 32
          \<and> CHR ''='' \<notin> set (urlsafe_b64encode (take 24 (sha512 b)))" for b
    by (simp add: length_urlsafe_b64encode urlsafe_pad_iff)
  moreover have "sha512t (Bytes data) n = Inr (urlsafe_b64encode (slice_to (sha512 data) n))"
    by (simp add: urlsafe_ok)
  moreover have "(CHR ''='' \<in> set (urlsafe_b64encode (slice_to (sha512 data) n)))
       = (kept_bytes n mod 3 \<noteq> 0)"
    by (simp add: urlsafe_pad_iff length_slice_sha512)
  moreover have "length (slice_to (sha512 data) n) = kept_bytes n"
    by (rule length_slice_sha512)
  ultimately show ?thesis by blast
qed


section \<open>Which calls raise\<close>

lemma utf8_encode_cp_isl:
  "isl (utf8_encode_cp c) \<longleftrightarrow> \<not> (c < 0xD800 \<or> 0xDFFF < c)"
  by (auto simp: utf8_encode_cp_def)

lemma utf8_encode_cp_error: "utf8_encode_cp c = Inl e \<Longrightarrow> e = UnicodeEncodeError"
  by (auto simp: utf8_encode_cp_def split: if_splits)

lemma str_encode_isl:
  "isl (str_encode t) \<longleftrightarrow> \<not> list_all (\<lambda>c. c < 0xD800 \<or> 0xDFFF < c) t"
proof (induction t)
  case Nil
  show ?case by simp
next
  case (Cons c t)
  show ?case
  proof (cases "utf8_encode_cp c")
    case (Inl e)
    then show ?thesis using utf8_encode_cp_isl [of c] by simp
  next
    case (Inr bs)
    then have "c < 0xD800 \<or> 0xDFFF < c"
      using utf8_encode_cp_isl [of c] by simp
    with Inr Cons show ?thesis
      by (cases "str_encode t") simp_all
  qed
qed

lemma str_encode_error: "str_encode t = Inl e \<Longrightarrow> e = UnicodeEncodeError"
proof (induction t)
  case Nil
  then show ?case by simp
next
  case (Cons c t)
  then show ?case
    by (cases "utf8_encode_cp c"; cases "str_encode t")
       (auto dest: utf8_encode_cp_error)
qed

lemma to_binary_isl: "isl (to_binary x) \<longleftrightarrow> \<not> encodable x"
  by (cases x) (simp_all add: str_encode_isl)

lemma to_binary_error: "to_binary x = Inl e \<Longrightarrow> e = UnicodeEncodeError"
  by (cases x) (auto dest: str_encode_error)

lemma hashed_bytes_isl: "isl (hashed_bytes x n) \<longleftrightarrow> \<not> encodable x"
  using to_binary_isl [of x]
  by (cases "to_binary x") (simp_all add: hashed_bytes_def normalize_sequence_def)

lemma normalize_sequence_isl: "isl (normalize_sequence x) \<longleftrightarrow> \<not> encodable x"
  using hashed_bytes_isl [of x True] by (simp add: hashed_bytes_def)

lemma isl_bind_Inr: "isl (bind_r r (\<lambda>b. Inr (f b))) \<longleftrightarrow> isl r"
  by (cases r) simp_all


text \<open>
  C8, as stated, fails: a text string with a surrogate code point cannot be encoded,
  and \<open>sha512t\<close> raises on every text string, the empty one included.
\<close>

theorem coercion_error_counterexample:
  "normalize_sequence (Text [0xD800]) = Inl UnicodeEncodeError
   \<and> seq_md5 (Text [0xD800]) True = Inl UnicodeEncodeError
   \<and> sha512t (Text []) 24 = Inl TypeError"
  by (simp add: normalize_sequence_def seq_md5_def utf8_encode_cp_def)

lemma hashed_bytes_error: "hashed_bytes x n = Inl e \<Longrightarrow> e = UnicodeEncodeError"
  using to_binary_error [of x e]
  by (cases "to_binary x") (auto simp: hashed_bytes_def normalize_sequence_def split: if_splits)

lemma hashed_bytes_raises:
  "(hashed_bytes x n = Inl UnicodeEncodeError) = (\<not> encodable x)"
  using hashed_bytes_isl [of x n] hashed_bytes_error [of x n]
  by (cases "hashed_bytes x n") auto

lemma bind_Inr_raises: "(bind_r r (\<lambda>b. Inr (f b)) = Inl e) = (r = Inl e)"
  by (cases r) simp_all

text \<open>
  C8, amended. Every byte string and the empty text can be coerced. The normalizer
  and the five digest functions return a result exactly on the sequences that can be
  coerced, which are all byte strings and the text strings free of surrogate code
  points; on every other sequence each of them raises \<^verbatim>\<open>UnicodeEncodeError\<close>.
  \<open>sha512t\<close> returns a result on every byte string and raises \<^verbatim>\<open>TypeError\<close> on
  every text string.
\<close>

theorem operations_succeed_iff_encodable:
  "encodable (Bytes b) \<and> encodable (Text [])
   \<and> isl (normalize_sequence x) = (\<not> encodable x)
   \<and> isl (seq_seguid x n) = (\<not> encodable x)
   \<and> isl (seq_seqhash x n ds) = (\<not> encodable x)
   \<and> isl (seq_md5 x n) = (\<not> encodable x)
   \<and> isl (seq_sha1 x n) = (\<not> encodable x)
   \<and> isl (seq_sha512 x n) = (\<not> encodable x)
   \<and> (normalize_sequence x = Inl UnicodeEncodeError) = (\<not> encodable x)
   \<and> (seq_seguid x n = Inl UnicodeEncodeError) = (\<not> encodable x)
   \<and> (seq_seqhash x n ds = Inl UnicodeEncodeError) = (\<not> encodable x)
   \<and> (seq_md5 x n = Inl UnicodeEncodeError) = (\<not> encodable x)
   \<and> (seq_sha1 x n = Inl UnicodeEncodeError) = (\<not> encodable x)
   \<and> (seq_sha512 x n = Inl UnicodeEncodeError) = (\<not> encodable x)
   \<and> \<not> isl (sha512t (Bytes b) ds)
   \<and> sha512t (Text t) ds = Inl TypeError"
proof -
  have "(normalize_sequence x = Inl UnicodeEncodeError) = (\<not> encodable x)"
    using hashed_bytes_raises [of x True] by (simp add: hashed_bytes_def)
  then show ?thesis
    by (simp add: seq_seguid_alt seq_seqhash_alt seq_md5_alt seq_sha1_alt seq_sha512_alt
        isl_bind_Inr bind_Inr_raises hashed_bytes_isl hashed_bytes_raises
        normalize_sequence_isl urlsafe_ok)
qed

section \<open>Edits that normalization absorbs\<close>

lemma spec_deleted_unat: "b \<in> spec_deleted \<longleftrightarrow> droppable_cp (unat b)"
  by (simp add: spec_deleted_def droppable_cp_def word_unat_eq_iff)

lemma spec_upper_unat: "unat (spec_upper b) = cp_upper (unat b)"
  by (auto simp: spec_upper_def cp_upper_def word_le_nat_alt unat_sub)

lemma cp_upper_droppable: "droppable_cp (cp_upper c) \<longleftrightarrow> droppable_cp c"
  by (auto simp: cp_upper_def droppable_cp_def)

lemma spec_upper_deleted: "spec_upper b \<in> spec_deleted \<longleftrightarrow> b \<in> spec_deleted"
  by (simp add: spec_deleted_unat spec_upper_unat cp_upper_droppable)

lemma spec_normalize_append:
  "spec_normalize (xs @ ys) = spec_normalize xs @ spec_normalize ys"
  by (simp add: spec_normalize_def)

lemma spec_normalize_single:
  "spec_normalize [b] = (if b \<in> spec_deleted then [] else [spec_upper b])"
  by (simp add: spec_normalize_def)

lemma spec_normalize_Cons:
  "spec_normalize (b # bs) = spec_normalize [b] @ spec_normalize bs"
  using spec_normalize_append [of "[b]" bs] by simp

lemma list_edit_bytes:
  "list_edit (\<lambda>b. b \<in> spec_deleted) spec_upper xs ys \<Longrightarrow> spec_normalize xs = spec_normalize ys"
proof (induction rule: list_edit.induct)
  case (add_char c xs ys)
  then show ?case
    by (simp add: spec_normalize_append spec_normalize_Cons [of c ys] spec_normalize_single)
next
  case (drop_char c xs ys)
  then show ?case
    by (simp add: spec_normalize_append spec_normalize_Cons [of c ys] spec_normalize_single)
next
  case (recase c c' xs ys)
  then have "c \<in> spec_deleted \<longleftrightarrow> c' \<in> spec_deleted"
    using spec_upper_deleted [of c] spec_upper_deleted [of c'] by simp
  with recase have "spec_normalize [c] = spec_normalize [c']"
    by (simp add: spec_normalize_single)
  then show ?case
    by (simp add: spec_normalize_append spec_normalize_Cons [of c ys]
        spec_normalize_Cons [of c' ys])
qed

lemma bind_r_return [simp]: "bind_r r Inr = r"
  by (cases r) simp_all

lemma normalize_text_Cons:
  "normalize_sequence (Text (c # cs))
     = bind_r (normalize_sequence (Text [c])) (\<lambda>m.
       bind_r (normalize_sequence (Text cs)) (\<lambda>r. Inr (m @ r)))"
  by (cases "utf8_encode_cp c"; cases "str_encode cs")
     (simp_all add: normalize_sequence_def normalize_bytes_spec spec_normalize_append)

lemma normalize_text_append:
  "normalize_sequence (Text (xs @ ys))
     = bind_r (normalize_sequence (Text xs)) (\<lambda>a.
       bind_r (normalize_sequence (Text ys)) (\<lambda>b. Inr (a @ b)))"
proof (induction xs)
  case Nil
  show ?case by (simp add: normalize_sequence_def)
next
  case (Cons c xs)
  show ?case
    unfolding append_Cons normalize_text_Cons [of c "xs @ ys"] normalize_text_Cons [of c xs] Cons
    by (cases "normalize_sequence (Text [c])"; cases "normalize_sequence (Text xs)";
        cases "normalize_sequence (Text ys)") simp_all
qed

lemma normalize_text_ascii:
  "c < 0x80 \<Longrightarrow> normalize_sequence (Text [c])
     = Inr (if droppable_cp c then [] else [of_nat (cp_upper c)])"
proof -
  assume c: "c < 0x80"
  then have u: "unat (of_nat c :: byte) = c"
    by (simp add: unat_of_nat)
  have "spec_upper (of_nat c :: byte) = of_nat (unat (spec_upper (of_nat c :: byte)))"
    by simp
  also have "\<dots> = of_nat (cp_upper c)"
    by (simp only: spec_upper_unat u)
  finally have up: "spec_upper (of_nat c :: byte) = of_nat (cp_upper c)" .
  have "(of_nat c :: byte) \<in> spec_deleted \<longleftrightarrow> droppable_cp c"
    by (simp add: spec_deleted_unat u)
  with up c show ?thesis
    by (simp add: normalize_sequence_def normalize_bytes_spec utf8_encode_cp_def
        spec_normalize_single)
qed

lemma droppable_cp_ascii: "droppable_cp c \<Longrightarrow> c < 0x80"
  by (auto simp: droppable_cp_def)

lemma recase_cases:
  "cp_upper c = cp_upper c' \<Longrightarrow>
     c = c' \<or> (c < 0x80 \<and> c' < 0x80 \<and> \<not> droppable_cp c \<and> \<not> droppable_cp c')"
  by (auto simp: cp_upper_def droppable_cp_def split: if_splits)

lemma normalize_text_recase:
  "cp_upper c = cp_upper c' \<Longrightarrow> normalize_sequence (Text [c]) = normalize_sequence (Text [c'])"
  using recase_cases [of c c'] by (auto simp: normalize_text_ascii)

lemma list_edit_text:
  "list_edit droppable_cp cp_upper xs ys \<Longrightarrow>
     normalize_sequence (Text xs) = normalize_sequence (Text ys)"
proof (induction rule: list_edit.induct)
  case (add_char c xs ys)
  then have "normalize_sequence (Text [c]) = Inr []"
    by (simp add: normalize_text_ascii droppable_cp_ascii)
  then show ?case
    by (simp add: normalize_text_append [of xs "c # ys"] normalize_text_append [of xs ys]
        normalize_text_Cons [of c ys])
next
  case (drop_char c xs ys)
  then have "normalize_sequence (Text [c]) = Inr []"
    by (simp add: normalize_text_ascii droppable_cp_ascii)
  then show ?case
    by (simp add: normalize_text_append [of xs "c # ys"] normalize_text_append [of xs ys]
        normalize_text_Cons [of c ys])
next
  case (recase c c' xs ys)
  then have "normalize_sequence (Text [c]) = normalize_sequence (Text [c'])"
    by (rule normalize_text_recase)
  then show ?case
    by (simp add: normalize_text_append [of xs "c # ys"] normalize_text_append [of xs "c' # ys"]
        normalize_text_Cons [of c ys] normalize_text_Cons [of c' ys])
qed

lemma edit_normalize: "edit x y \<Longrightarrow> normalize_sequence x = normalize_sequence y"
proof (induction rule: edit.induct)
  case (edit_bytes xs ys)
  then show ?case
    using list_edit_bytes [of xs ys] by (simp add: normalize_sequence_def normalize_bytes_spec)
next
  case (edit_text xs ys)
  then show ?case by (rule list_edit_text)
qed

lemma edits_normalize: "edit\<^sup>*\<^sup>* x y \<Longrightarrow> normalize_sequence x = normalize_sequence y"
  by (induction rule: rtranclp_induct) (simp_all add: edit_normalize)

lemma hashed_bytes_True: "hashed_bytes x True = normalize_sequence x"
  by (simp add: hashed_bytes_def)


section \<open>When normalization changes the hashed bytes\<close>




section \<open>The text encodings are injective\<close>
























section \<open>When the two flag values give different digests\<close>










section \<open>Evaluating the hash functions\<close>

text \<open>
  The simplifier does not reduce a word numeral modulo the word size, so the sums and
  left shifts of the compression functions are masked explicitly when a digest is
  computed by rewriting; on words the mask is the identity. The schedules are unfolded
  on a window of sixteen literal words.
\<close>

lemma m32: "(x :: u32) AND 0xFFFFFFFF = x"
proof -
  have e: "(0xFFFFFFFF :: u32) = - 1" by simp
  show ?thesis unfolding e by simp
qed

lemma m64: "(x :: u64) AND 0xFFFFFFFFFFFFFFFF = x"
proof -
  have e: "(0xFFFFFFFFFFFFFFFF :: u64) = - 1" by simp
  show ?thesis unfolding e by simp
qed

lemma replicate_numeral: "replicate (numeral k) x = x # replicate (pred_numeral k) x"
  by (simp add: numeral_eq_Suc)

lemma word_be_numeral: "word_be (numeral k) w = word_be (pred_numeral k) (drop_bit 8 w) @ [ucast w]"
  by (simp add: numeral_eq_Suc)

lemma word_le_numeral: "word_le (numeral k) w = ucast w # word_le (pred_numeral k) (drop_bit 8 w)"
  by (simp add: numeral_eq_Suc)

lemma rotl32_eval: "rotl32 n w = (push_bit n w AND 0xFFFFFFFF) OR drop_bit (32 - n) w"
  by (simp only: rotl32_def m32)

lemma rotr64_eval: "rotr64 n w = drop_bit n w OR (push_bit (64 - n) w AND 0xFFFFFFFFFFFFFFFF)"
  by (simp only: rotr64_def m64)

lemma sha1_schedule_Suc_eval:
  "sha1_schedule (Suc k) [w0, w1, w2, w3, w4, w5, w6, w7, w8, w9, w10, w11, w12, w13, w14, w15] =
     sha1_push (rotl32 1 (w13 XOR w8 XOR w2 XOR w0)) k
       [w1, w2, w3, w4, w5, w6, w7, w8, w9, w10, w11, w12, w13, w14, w15]"
  by (simp add: sha1_push_def Let_def)

lemma sha1_schedule_numeral_eval:
  "sha1_schedule (numeral k) [w0, w1, w2, w3, w4, w5, w6, w7, w8, w9, w10, w11, w12, w13, w14, w15] =
     sha1_push (rotl32 1 (w13 XOR w8 XOR w2 XOR w0)) (pred_numeral k)
       [w1, w2, w3, w4, w5, w6, w7, w8, w9, w10, w11, w12, w13, w14, w15]"
  by (simp add: sha1_push_def Let_def numeral_eq_Suc)

lemma sha1_push_eval:
  "sha1_push w k [w1, w2, w3, w4, w5, w6, w7, w8, w9, w10, w11, w12, w13, w14, w15] =
     w # sha1_schedule k [w1, w2, w3, w4, w5, w6, w7, w8, w9, w10, w11, w12, w13, w14, w15, w]"
  by (simp add: sha1_push_def)

lemma sha1_round_eval:
  "sha1_round f k (a, b, c, d, e) w =
     ((rotl32 5 a + f b c d + e + k + w) AND 0xFFFFFFFF, a, rotl32 30 b, c, d)"
  by (simp only: sha1_round.simps m32)

lemma sha1_add_eval:
  "sha1_add (h0, h1, h2, h3, h4) (a, b, c, d, e) =
     ((h0 + a) AND 0xFFFFFFFF, (h1 + b) AND 0xFFFFFFFF, (h2 + c) AND 0xFFFFFFFF,
      (h3 + d) AND 0xFFFFFFFF, (h4 + e) AND 0xFFFFFFFF)"
  by (simp only: sha1_add.simps m32)

lemma sha512_schedule_Suc_eval:
  "sha512_schedule (Suc k) [w0, w1, w2, w3, w4, w5, w6, w7, w8, w9, w10, w11, w12, w13, w14, w15] =
     sha512_push ((ssig1 w14 + w9 + ssig0 w1 + w0) AND 0xFFFFFFFFFFFFFFFF) k
       [w1, w2, w3, w4, w5, w6, w7, w8, w9, w10, w11, w12, w13, w14, w15]"
  by (simp add: sha512_push_def Let_def m64)

lemma sha512_schedule_numeral_eval:
  "sha512_schedule (numeral k) [w0, w1, w2, w3, w4, w5, w6, w7, w8, w9, w10, w11, w12, w13, w14, w15] =
     sha512_push ((ssig1 w14 + w9 + ssig0 w1 + w0) AND 0xFFFFFFFFFFFFFFFF) (pred_numeral k)
       [w1, w2, w3, w4, w5, w6, w7, w8, w9, w10, w11, w12, w13, w14, w15]"
  by (simp add: sha512_push_def Let_def m64 numeral_eq_Suc)

lemma sha512_push_eval:
  "sha512_push w k [w1, w2, w3, w4, w5, w6, w7, w8, w9, w10, w11, w12, w13, w14, w15] =
     w # sha512_schedule k [w1, w2, w3, w4, w5, w6, w7, w8, w9, w10, w11, w12, w13, w14, w15, w]"
  by (simp add: sha512_push_def)

lemma sha512_round_eval:
  "sha512_round (a, b, c, d, e, f, g, h) (k, w) =
     (let t1 = (h + bsig1 e + ch64 e f g + k + w) AND 0xFFFFFFFFFFFFFFFF;
          t2 = (bsig0 a + maj64 a b c) AND 0xFFFFFFFFFFFFFFFF
      in ((t1 + t2) AND 0xFFFFFFFFFFFFFFFF, a, b, c, (d + t1) AND 0xFFFFFFFFFFFFFFFF, e, f, g))"
  by (simp only: sha512_round.simps m64)

lemma sha512_add_eval:
  "sha512_add (h0, h1, h2, h3, h4, h5, h6, h7) (a, b, c, d, e, f, g, h) =
     ((h0 + a) AND 0xFFFFFFFFFFFFFFFF, (h1 + b) AND 0xFFFFFFFFFFFFFFFF,
      (h2 + c) AND 0xFFFFFFFFFFFFFFFF, (h3 + d) AND 0xFFFFFFFFFFFFFFFF,
      (h4 + e) AND 0xFFFFFFFFFFFFFFFF, (h5 + f) AND 0xFFFFFFFFFFFFFFFF,
      (h6 + g) AND 0xFFFFFFFFFFFFFFFF, (h7 + h) AND 0xFFFFFFFFFFFFFFFF)"
  by (simp only: sha512_add.simps m64)

lemma md5_round_eval:
  "md5_round f ms (a, b, c, d) (k, s, g) =
     (d, (b + rotl32 s ((a + f b c d + k + ms ! g) AND 0xFFFFFFFF)) AND 0xFFFFFFFF, b, c)"
  by (simp only: md5_round.simps m32)

lemma md5_add_eval:
  "md5_add (a0, b0, c0, d0) (a, b, c, d) =
     ((a0 + a) AND 0xFFFFFFFF, (b0 + b) AND 0xFFFFFFFF, (c0 + c) AND 0xFFFFFFFF,
      (d0 + d) AND 0xFFFFFFFF)"
  by (simp only: md5_add.simps m32)

declare sha1_round.simps [simp del] sha1_add.simps [simp del] sha1_schedule.simps(2) [simp del]
  sha512_round.simps [simp del] sha512_add.simps [simp del] sha512_schedule.simps(2) [simp del]
  md5_round.simps [simp del] md5_add.simps [simp del]

lemmas pad_eval = replicate_numeral word_be_numeral word_le_numeral chunks.simps md_pad_def
  be_word_def le_word_def

lemmas sha1_eval = pad_eval rotl32_eval sha1_def sha1_block_def sha1_compress_def sha1_rounds_def
  sha1_ch_def sha1_parity_def sha1_maj_def sha1_schedule_Suc_eval sha1_schedule_numeral_eval
  sha1_push_eval sha1_round_eval sha1_add_eval sha1_schedule.simps(1)

lemmas sha512_eval = pad_eval rotr64_eval sha512_def sha512_block_def sha512_compress_def
  sha512_K_def ssig0_def ssig1_def bsig0_def bsig1_def ch64_def maj64_def
  sha512_schedule_Suc_eval sha512_schedule_numeral_eval sha512_push_eval sha512_round_eval
  sha512_add_eval sha512_schedule.simps(1) Let_def

lemmas md5_eval = pad_eval rotl32_eval md5_def md5_block_def md5_rounds_def md5_K_def md5_S_def
  md5_G_def md5_F_def md5_Gf_def md5_H_def md5_I_def md5_round_eval md5_add_eval Let_def


subsection \<open>Digests of the documented inputs\<close>

lemma sha1_empty:
  "sha1 [] = [218, 57, 163, 238, 94, 107, 75, 13, 50, 85, 191, 239, 149, 96, 24, 144, 175, 216, 7, 9]"
  by (simp add: sha1_eval)

lemma sha1_ACGT:
  "sha1 [65, 67, 71, 84] = [33, 8, 153, 78, 23, 246, 204, 169, 255, 35, 82, 173, 169, 43, 101, 17, 219, 7, 96, 52]"
  by (simp add: sha1_eval)

lemma md5_ACGT:
  "md5 [65, 67, 71, 84] = [241, 248, 244, 191, 65, 59, 22, 173, 19, 87, 34, 170, 69, 145, 4, 62]"
  by (simp add: md5_eval)

lemma sha512_empty:
  "sha512 [] =
    [207, 131, 225, 53, 126, 239, 184, 189, 241, 84, 40, 80, 214, 109, 128, 7,
     214, 32, 228, 5, 11, 87, 21, 220, 131, 244, 169, 33, 211, 108, 233, 206,
     71, 208, 209, 60, 93, 133, 242, 176, 255, 131, 24, 210, 135, 126, 236, 47,
     99, 185, 49, 189, 71, 65, 122, 129, 165, 56, 50, 122, 249, 39, 218, 62]"
  by (simp add: sha512_eval)

lemma sha512_ACGT:
  "sha512 [65, 67, 71, 84] =
    [104, 161, 120, 247, 199, 64, 197, 194, 64, 170, 103, 186, 65, 132, 59, 17,
     157, 59, 249, 248, 176, 240, 172, 54, 207, 112, 29, 38, 103, 41, 100, 239,
     189, 83, 109, 25, 127, 81, 206, 99, 79, 199, 6, 52, 209, 238, 254, 87,
     91, 236, 52, 200, 50, 71, 171, 197, 32, 16, 246, 226, 187, 219, 130, 83]"
  by (simp add: sha512_eval)




lemma md5_e_acute:
  "md5 [0xC3, 0xA9] = [102, 221, 205, 151, 207, 222, 171, 178, 246, 251, 138, 153, 155, 75, 199, 111]"
  by (simp add: md5_eval)

lemma md5_E_acute:
  "md5 [0xC3, 0x89] = [102, 152, 59, 234, 143, 193, 223, 151, 122, 23, 164, 252, 120, 196, 204, 115]"
  by (simp add: md5_eval)

subsection \<open>The documented inputs, normalized\<close>

lemmas normalize_eval = hashed_bytes_def normalize_sequence_def str_def utf8_encode_cp_def
  re_class_def re_space_def byte_upper_def

lemma hashed_empty: "hashed_bytes (str '''') True = Inr []"
  by (simp add: normalize_eval)

lemma hashed_ACGT: "hashed_bytes (str ''ACGT'') True = Inr [65, 67, 71, 84]"
  by (simp add: normalize_eval)

lemma hashed_acgt: "hashed_bytes (str ''acgt'') True = Inr [65, 67, 71, 84]"
  by (simp add: normalize_eval)

lemma hashed_ACGT_star: "hashed_bytes (str ''ACGT*'') True = Inr [65, 67, 71, 84]"
  by (simp add: normalize_eval)

lemma hashed_A_C_G_T: "hashed_bytes (str '' A C G T '') True = Inr [65, 67, 71, 84]"
  by (simp add: normalize_eval)


lemma hashed_e_acute: "hashed_bytes (Text [0xE9]) flag = Inr [0xC3, 0xA9]"
  by (simp add: normalize_eval)

lemma hashed_E_acute: "hashed_bytes (Text [0xC9]) True = Inr [0xC3, 0x89]"
  by (simp add: normalize_eval)

lemmas encode_eval = rstrip_def urlsafe_b64encode_def urlsafe_char_def b64_char_def b64_table_def
  hex_table_def

section \<open>Reference vectors\<close>

text \<open>
  C5. The reference vectors of the docstrings hold, with the default arguments:
  \<open>seq_seguid\<close> and \<open>seq_seqhash\<close> of the empty string, of \<^verbatim>\<open>ACGT\<close> and of
  \<^verbatim>\<open>acgt\<close>, the last two being equal.
\<close>

theorem reference_vectors:
  "seq_seguid (str '''') True = Inr ''2jmj7l5rSw0yVb/vlWAYkK/YBwk''
   \<and> seq_seguid (str ''ACGT'') True = Inr ''IQiZThf2zKn/I1KtqStlEdsHYDQ''
   \<and> seq_seguid (str ''acgt'') True = seq_seguid (str ''ACGT'') True
   \<and> seq_seqhash (str '''') True 24 = Inr ''z4PhNX7vuL3xVChQ1m2AB9Yg5AULVxXc''
   \<and> seq_seqhash (str ''ACGT'') True 24 = Inr ''aKF498dAxcJAqme6QYQ7EZ07-fiw8Kw2''
   \<and> seq_seqhash (str ''acgt'') True 24 = seq_seqhash (str ''ACGT'') True 24"
  by (simp add: seq_seguid_alt seq_seqhash_alt hashed_empty hashed_ACGT hashed_acgt
      sha1_empty sha1_ACGT sha512_empty sha512_ACGT encode_eval)

section \<open>Invariance of the digests\<close>

text \<open>
  C3, as stated, fails on a letter beyond ASCII: \<^verbatim>\<open>bytes.upper()\<close> leaves the UTF-8
  bytes of \<^verbatim>\<open>U+00E9\<close> (e with acute) and of its capital \<^verbatim>\<open>U+00C9\<close> as they are, and
  the MD5 digests of the two one-letter strings differ.
\<close>

theorem case_change_counterexample:
  "seq_md5 (Text [0xE9]) True = Inr ''66ddcd97cfdeabb2f6fb8a999b4bc76f''
   \<and> seq_md5 (Text [0xC9]) True = Inr ''66983bea8fc1df977a17a4fc78c4cc73''
   \<and> seq_md5 (Text [0xE9]) True \<noteq> seq_md5 (Text [0xC9]) True"
  by (simp add: seq_md5_alt hashed_e_acute hashed_E_acute md5_e_acute md5_E_acute encode_eval)

text \<open>
  C3, amended. With \<open>normalize = True\<close>, each of the five digest functions returns
  the same for two sequences of which one is obtained from the other by any number
  of edits that change the case of an ASCII letter or insert or remove an ASCII
  whitespace character or an asterisk, at any position. In particular the MD5
  digests of \<^verbatim>\<open>ACGT*\<close>, of \<^verbatim>\<open> A C G T \<close> and of \<^verbatim>\<open>acgt\<close> are the documented one.
\<close>

theorem digests_invariant_under_edits:
  assumes "edit\<^sup>*\<^sup>* s s'"
  shows "seq_seguid s True = seq_seguid s' True
    \<and> seq_seqhash s True ds = seq_seqhash s' True ds
    \<and> seq_md5 s True = seq_md5 s' True
    \<and> seq_sha1 s True = seq_sha1 s' True
    \<and> seq_sha512 s True = seq_sha512 s' True
    \<and> seq_md5 (str ''ACGT*'') True = Inr ''f1f8f4bf413b16ad135722aa4591043e''
    \<and> seq_md5 (str '' A C G T '') True = Inr ''f1f8f4bf413b16ad135722aa4591043e''
    \<and> seq_md5 (str ''acgt'') True = Inr ''f1f8f4bf413b16ad135722aa4591043e''"
proof -
  have "seq_md5 (str ''ACGT*'') True = Inr ''f1f8f4bf413b16ad135722aa4591043e''"
    "seq_md5 (str '' A C G T '') True = Inr ''f1f8f4bf413b16ad135722aa4591043e''"
    "seq_md5 (str ''acgt'') True = Inr ''f1f8f4bf413b16ad135722aa4591043e''"
    by (simp_all add: seq_md5_alt hashed_ACGT_star hashed_A_C_G_T hashed_acgt md5_ACGT encode_eval)
  then show ?thesis
    using edits_normalize [OF assms]
    by (simp add: seq_seguid_alt seq_seqhash_alt seq_md5_alt seq_sha1_alt seq_sha512_alt
        hashed_bytes_True)
qed

theorem digests_invariant_under_edits_witness:
  "edit\<^sup>*\<^sup>* (str ''a'') (str ''A*'')
   \<and> seq_seguid (str ''a'') True = seq_seguid (str ''A*'') True
   \<and> seq_seqhash (str ''a'') True 24 = seq_seqhash (str ''A*'') True 24
   \<and> seq_md5 (str ''a'') True = seq_md5 (str ''A*'') True
   \<and> seq_sha1 (str ''a'') True = seq_sha1 (str ''A*'') True
   \<and> seq_sha512 (str ''a'') True = seq_sha512 (str ''A*'') True"
proof -
  have "list_edit droppable_cp cp_upper ([] @ 0x61 # []) ([] @ 0x41 # [])"
    by (rule list_edit.recase) (simp add: cp_upper_def)
  then have 1: "edit (Text [0x61]) (Text [0x41])"
    using edit_text [of "[0x61]" "[0x41]"] by simp
  have "list_edit droppable_cp cp_upper ([0x41] @ []) ([0x41] @ 0x2A # [])"
    by (rule list_edit.add_char) (simp add: droppable_cp_def)
  then have 2: "edit (Text [0x41]) (Text [0x41, 0x2A])"
    using edit_text [of "[0x41]" "[0x41, 0x2A]"] by simp
  have s: "str ''a'' = Text [0x61]" "str ''A*'' = Text [0x41, 0x2A]"
    by (simp_all add: str_def)
  have h: "edit\<^sup>*\<^sup>* (str ''a'') (str ''A*'')"
    unfolding s using 1 2 by (rule converse_rtranclp_into_rtranclp [OF _ r_into_rtranclp])
  show ?thesis
    using h digests_invariant_under_edits [OF h, of 24] by simp
qed

section \<open>Digests of the raw input\<close>






end
